theory Spec2Isabelle
  imports Main "HOL-Library.Word"
begin

section \<open>The C and C++ library calls of main.cpp\<close>

text \<open>
  \<^verbatim>\<open>std::atoi\<close> skips white space, reads an optional sign and then decimal digits, and
  stops at the first character that is not a digit. With no digit it returns 0. C leaves
  the result undefined when the number does not fit an \<^verbatim>\<open>int\<close>; the model takes what the
  library returns there as a parameter (\<open>ovf\<close>), so nothing proved below depends on it.
\<close>

definition isspace :: "char \<Rightarrow> bool" where
  "isspace c =
     (c = CHR '' '' \<or> c = CHR 0x09 \<or> c = CHR 0x0A \<or> c = CHR 0x0B \<or> c = CHR 0x0C \<or> c = CHR 0x0D)"

definition isdigit :: "char \<Rightarrow> bool" where
  "isdigit c = (48 \<le> (of_char c :: nat) \<and> (of_char c :: nat) \<le> 57)"

definition digit_value :: "char \<Rightarrow> int" where
  "digit_value c = int (of_char c) - 48"

definition decimal :: "string \<Rightarrow> int" where
  "decimal ds = foldl (\<lambda>acc c. 10 * acc + digit_value c) 0 ds"

definition INT_MIN :: int where
  "INT_MIN = - (2 ^ 31)"

definition INT_MAX :: int where
  "INT_MAX = 2 ^ 31 - 1"

fun strip_sign :: "string \<Rightarrow> bool \<times> string" where
  "strip_sign [] = (False, [])"
| "strip_sign (c # cs) =
     (if c = CHR ''-'' then (True, cs) else if c = CHR ''+'' then (False, cs) else (False, c # cs))"

definition atoi :: "(int \<Rightarrow> int) \<Rightarrow> string \<Rightarrow> int" where
  "atoi ovf s =
     (let (neg, body) = strip_sign (dropWhile isspace s);
          v = decimal (takeWhile isdigit body);
          r = (if neg then - v else v)
      in if INT_MIN \<le> r \<and> r \<le> INT_MAX then r else ovf r)"

text \<open>\<^verbatim>\<open>operator<<\<close> of an output stream on an \<^verbatim>\<open>int\<close>: the decimal digits, with a minus sign
  for a negative number.\<close>

fun digits10 :: "nat \<Rightarrow> string" where
  "digits10 k =
     (if k < 10 then [''0123456789'' ! k] else digits10 (k div 10) @ [''0123456789'' ! (k mod 10)])"

declare digits10.simps [simp del]

definition show_int :: "int \<Rightarrow> string" where
  "show_int k = (if k < 0 then CHR ''-'' # digits10 (nat (- k)) else digits10 (nat k))"

abbreviation (input) endl :: string where
  "endl \<equiv> [CHR 0x0A]"

abbreviation (input) EXIT_SUCCESS :: int where
  "EXIT_SUCCESS \<equiv> 0"

abbreviation (input) EXIT_FAILURE :: int where
  "EXIT_FAILURE \<equiv> 1"

text \<open>\<^verbatim>\<open>std::string::operator[]\<close>: the character at a position below the size, and the
  terminating null character at the size itself (the only positions main.cpp reads).\<close>

definition char_at :: "string \<Rightarrow> nat \<Rightarrow> char" where
  "char_at s k = (if k < length s then s ! k else CHR 0x00)"

section \<open>The build, the collaborators and what the process does to them\<close>

text \<open>\<^verbatim>\<open>size_t\<close>, at the 64 bits of the win64 and linux64 builds: an \<^verbatim>\<open>int\<close> assigned to it
  is taken modulo \<open>2 ^ 64\<close>, and its comparisons are unsigned.\<close>

type_synonym size_t = "64 word"

text \<open>The places where the compute engine, which is not part of main.cpp, can throw a
  \<^verbatim>\<open>std::runtime_error\<close>.\<close>

datatype stage = AtEngine | AtInit | AtCheckFile | AtBench | AtRelease

text \<open>
  Everything main.cpp takes from outside itself: the build (the macro \<^verbatim>\<open>BOINC\<close>, the
  system and compiler names of the banner), the C library's answer for a number that
  overflows, and the answers of the collaborators declared in boinc.h, ocl.h and genefer.h:
  the return value of \<^verbatim>\<open>boinc_init()\<close> and \<^verbatim>\<open>boinc_is_standalone()\<close>, the triple (error
  code, device id, platform id) that \<^verbatim>\<open>boinc_get_opencl_ids\<close> leaves behind (an id is a
  pointer, 0 the null pointer), the counts \<^verbatim>\<open>platform.displayDevices()\<close> and
  \<^verbatim>\<open>platform.getDeviceCount()\<close> return, and the message the engine throws at a stage, if
  any.
\<close>

record env =
  BOINC :: bool
  sysver :: string
  ssc :: string
  atoi_overflow :: "int \<Rightarrow> int"
  boinc_init :: int
  boinc_is_standalone :: bool
  boinc_get_opencl_ids :: "int \<times> nat \<times> nat"
  displayDevices :: size_t
  getDeviceCount :: size_t
  engine_fault :: "stage \<Rightarrow> string option"

text \<open>The platform an engine is built on: the locally enumerated one, or the one made from
  the (platform id, device id) pair of the grid client.\<close>

datatype eng_platform = LocalPlatform | BoincPlatform nat nat

text \<open>
  The calls main.cpp makes on its collaborators, in the order it makes them. \<open>PioError s f\<close>
  is a call of \<^verbatim>\<open>pio::error\<close> with the text \<open>s\<close>; \<open>f\<close> tells whether the call passes \<^verbatim>\<open>true\<close> as
  its second argument, as the one in \<^verbatim>\<open>main\<close> does. What \<^verbatim>\<open>pio::error\<close> and \<^verbatim>\<open>pio::print\<close> do
  with the text is in pio.h, which is not part of main.cpp. \<^verbatim>\<open>platform.getDeviceCount()\<close> is a
  query and leaves no event.
\<close>

datatype event =
    PioSetBoinc bool
  | BoincInit
  | BoincIsStandalone
  | BoincGetOpenclIds
  | BoincFinish int
  | PioError string bool
  | PioPrint string
  | PlatformCtor
  | DisplayDevices
  | GenSetBoinc bool
  | EngineCtor eng_platform size_t
  | GenInit int bool
  | GenCheckFile string bool
  | GenBench
  | GenRelease

fun is_EngineCtor :: "event \<Rightarrow> bool" where
  "is_EngineCtor (EngineCtor p k) = True"
| "is_EngineCtor _ = False"

fun is_BoincFinish :: "event \<Rightarrow> bool" where
  "is_BoincFinish (BoincFinish k) = True"
| "is_BoincFinish _ = False"

section \<open>application::header and application::usage\<close>

fun join_args :: "bool \<Rightarrow> string list \<Rightarrow> string" where
  "join_args first [] = []"
| "join_args first (arg # args) = (if first then arg else '' '' @ arg) @ join_args False args"

definition header :: "env \<Rightarrow> string list \<Rightarrow> bool \<Rightarrow> string" where
  "header env args nl =
     ''genefer20 1.13.0 '' @ sysver env @ ssc env @ endl @
     ''Copyright (c) 2020, Yves Gallot'' @ endl @
     ''genefer20 is free source code, under the MIT license.'' @ endl @
     (if nl then endl @ ''Command line: '' @ [CHR 0x27] @ join_args True args @ [CHR 0x27] @ endl @ endl
      else [])"

definition usage :: "env \<Rightarrow> string" where
  "usage env =
     ''Usage: genefer20 [options]  options may be specified in any order'' @ endl @
     ''  -n <n>                  GFN exponent (b^{2^n} + 1) '' @ endl @
     ''  -f <filename>           input text file (one b per line)'' @ endl @
     ''  -d <n> or --device <n>  set device number=<n> (default 0)'' @ endl @
     ''  -p                      display results on the screen (default false)'' @ endl @
     ''  -v or -V                print the startup banner and immediately exit'' @ endl @
     (if BOINC env then ''  -boinc                  operate as a BOINC client app'' @ endl else []) @
     endl"

section \<open>application::run\<close>

subsection \<open>Entering grid mode (lines 136 to 157)\<close>

definition grid_init :: "env \<Rightarrow> bool \<Rightarrow> event list \<times> (string + nat \<times> nat)" where
  "grid_init env bBoinc =
     (if bBoinc then
        (if boinc_init env \<noteq> 0 then
           ([BoincInit], Inl (''boinc_init returned '' @ show_int (boinc_init env)))
         else if BOINC env then
           (if \<not> boinc_is_standalone env then
              (case boinc_get_opencl_ids env of (err, boinc_device_id, boinc_platform_id) \<Rightarrow>
                 if err \<noteq> 0 \<or> boinc_device_id = 0 \<or> boinc_platform_id = 0 then
                   ([BoincInit, BoincIsStandalone, BoincGetOpenclIds],
                    Inl (endl @ ''error: boinc_get_opencl_ids() failed err = '' @ show_int err))
                 else
                   ([BoincInit, BoincIsStandalone, BoincGetOpenclIds],
                    Inr (boinc_platform_id, boinc_device_id)))
            else ([BoincInit, BoincIsStandalone], Inr (0, 0)))
         else ([BoincInit], Inr (0, 0)))
      else ([], Inr (0, 0)))"

subsection \<open>The banner flags (lines 160 to 168)\<close>

definition is_banner_flag :: "string \<Rightarrow> bool" where
  "is_banner_flag arg =
     (char_at arg 0 = CHR ''-'' \<and> (char_at arg 1 = CHR ''v'' \<or> char_at arg 1 = CHR ''V''))"

fun banner_requested :: "string list \<Rightarrow> bool" where
  "banner_requested [] = False"
| "banner_requested (arg # args) = (if is_banner_flag arg then True else banner_requested args)"

subsection \<open>Parsing the arguments (lines 179 to 212)\<close>

text \<open>The local variables \<^verbatim>\<open>d\<close>, \<^verbatim>\<open>n\<close>, \<^verbatim>\<open>filename\<close> and \<^verbatim>\<open>display\<close> of \<^verbatim>\<open>run\<close>.\<close>

record locals =
  var_d :: size_t
  var_n :: int
  var_filename :: string
  var_display :: bool

definition initial_locals :: locals where
  "initial_locals = \<lparr>var_d = 0, var_n = 0, var_filename = [], var_display = False\<rparr>"

text \<open>
  The value of a flag, \<^verbatim>\<open>((arg == flag) && (i + 1 < size)) ? args[++i] : arg.substr(k)\<close>,
  with the index \<^verbatim>\<open>i\<close> as the expression leaves it.
\<close>

definition flag_value :: "string list \<Rightarrow> nat \<Rightarrow> string \<Rightarrow> nat \<Rightarrow> string \<times> nat" where
  "flag_value args i flag k =
     (if args ! i = flag \<and> i + 1 < length args then (args ! (i + 1), i + 1)
      else (drop k (args ! i), i))"

text \<open>One turn of the loop's body at index \<open>i < size\<close>: the exception thrown, or the index
  and the locals at the end of the body (before the loop's own \<^verbatim>\<open>++i\<close>).\<close>

definition parse_step :: "env \<Rightarrow> string list \<Rightarrow> nat \<Rightarrow> locals \<Rightarrow> string + nat \<times> locals" where
  "parse_step env args i st =
     (let arg = args ! i in
      case
        (if take 2 arg = ''-n'' then
           (case flag_value args i ''-n'' 2 of (nval, i') \<Rightarrow>
              (let n = atoi (atoi_overflow env) nval in
               if n < 8 then Inl ''n < 8 is not supported''
               else if n > 16 then Inl ''n > 16 is not supported''
               else Inr (i', st\<lparr>var_n := n\<rparr>)))
         else if take 2 arg = ''-f'' then
           (case flag_value args i ''-f'' 2 of (fval, i') \<Rightarrow> Inr (i', st\<lparr>var_filename := fval\<rparr>))
         else if take 2 arg = ''-d'' then
           (case flag_value args i ''-d'' 2 of (dev, i') \<Rightarrow>
              (let d = (word_of_int (atoi (atoi_overflow env) dev) :: size_t) in
               if d \<ge> getDeviceCount env then Inl ''invalid device number''
               else Inr (i', st\<lparr>var_d := d\<rparr>)))
         else if take 8 arg = ''--device'' then
           (case flag_value args i ''--device'' 8 of (dev, i') \<Rightarrow>
              (let d = (word_of_int (atoi (atoi_overflow env) dev) :: size_t) in
               if d \<ge> getDeviceCount env then Inl ''invalid device number''
               else Inr (i', st\<lparr>var_d := d\<rparr>)))
         else Inr (i, st))
      of
        Inl what \<Rightarrow> Inl what
      | Inr (i', st') \<Rightarrow> Inr (i', if arg = ''-p'' then st'\<lparr>var_display := True\<rparr> else st'))"

function parse_loop :: "env \<Rightarrow> string list \<Rightarrow> nat \<Rightarrow> locals \<Rightarrow> string + locals" where
  "parse_loop env args i st =
     (if i < length args then
        (case parse_step env args i st of
           Inl what \<Rightarrow> Inl what
         | Inr (i', st') \<Rightarrow> parse_loop env args (Suc i') st')
      else Inr st)"
  by pat_completeness auto
termination
proof (relation "measure (\<lambda>(env, args, i, st). length args - i)")
  show "wf (measure (\<lambda>(env, args, i, st). length args - i))"
    by simp
next
  fix env :: env and args :: "string list" and i :: nat and st :: locals
    and r :: "nat \<times> locals" and i' :: nat and st' :: locals
  assume less: "i < length args"
    and step: "parse_step env args i st = Inr r"
    and r: "(i', st') = r"
  from step r have "i \<le> i'"
    by (auto simp: parse_step_def flag_value_def Let_def split: if_splits prod.splits sum.splits)
  with less show "((env, args, Suc i', st'), (env, args, i, st))
      \<in> measure (\<lambda>(env, args, i, st). length args - i)"
    by simp
qed

declare parse_loop.simps [simp del]

definition parse_args :: "env \<Rightarrow> string list \<Rightarrow> string + locals" where
  "parse_args env args = parse_loop env args 0 initial_locals"

text \<open>Where the loop stands after \<open>k\<close> turns of its body: the exception one of them threw, or
  the index and the locals with which the next turn starts (or with which the loop has
  ended, when the index has reached the size).\<close>

fun parse_after :: "env \<Rightarrow> string list \<Rightarrow> nat \<Rightarrow> string + nat \<times> locals" where
  "parse_after env args 0 = Inr (0, initial_locals)"
| "parse_after env args (Suc k) =
     (case parse_after env args k of
        Inl what \<Rightarrow> Inl what
      | Inr (i, st) \<Rightarrow>
          if i < length args then
            (case parse_step env args i st of
               Inl what \<Rightarrow> Inl what
             | Inr (i', st') \<Rightarrow> Inr (Suc i', st'))
          else Inr (i, st))"

subsection \<open>Building and running the engine (lines 216 to 239)\<close>

text \<open>A sequence of calls on the engine, each with the exception it throws, if any: the
  calls made up to and including the first one that throws.\<close>

fun exec_calls :: "(event \<times> string option) list \<Rightarrow> event list \<times> (string + unit)" where
  "exec_calls [] = ([], Inr ())"
| "exec_calls ((e, Some what) # cs) = ([e], Inl what)"
| "exec_calls ((e, None) # cs) = (case exec_calls cs of (t, r) \<Rightarrow> (e # t, r))"

definition run_engine ::
  "env \<Rightarrow> bool \<Rightarrow> nat \<Rightarrow> nat \<Rightarrow> locals \<Rightarrow> event list \<times> (string + unit)" where
  "run_engine env bBoinc boinc_platform_id boinc_device_id st =
     (let is_boinc_platform = (bBoinc \<and> boinc_device_id \<noteq> 0 \<and> boinc_platform_id \<noteq> 0);
          eng_platform =
            (if is_boinc_platform then BoincPlatform boinc_platform_id boinc_device_id
             else LocalPlatform);
          eng_d = (if is_boinc_platform then 0 else var_d st)
      in case
           exec_calls
             [(GenSetBoinc bBoinc, None),
              (EngineCtor eng_platform eng_d, engine_fault env AtEngine),
              (GenInit (var_n st) bBoinc, engine_fault env AtInit),
              (if var_filename st \<noteq> []
               then (GenCheckFile (var_filename st) (var_display st), engine_fault env AtCheckFile)
               else (GenBench, engine_fault env AtBench)),
              (GenRelease, engine_fault env AtRelease)]
         of
           (t, Inl what) \<Rightarrow> (t, Inl what)
         | (t, Inr u) \<Rightarrow> (t @ (if bBoinc then [BoincFinish EXIT_SUCCESS] else []), Inr ()))"

subsection \<open>The whole of run, and main\<close>

text \<open>
  \<open>args\<close> is \<^verbatim>\<open>argv[1]\<close> to \<^verbatim>\<open>argv[argc - 1]\<close>. The result is the calls made, in order, and
  either the message of the \<^verbatim>\<open>std::runtime_error\<close> thrown or a normal return.
\<close>

definition run :: "env \<Rightarrow> string list \<Rightarrow> event list \<times> (string + unit)" where
  "run env args =
     (let bBoinc = (BOINC env \<and> ''-boinc'' \<in> set args) in
      case grid_init env bBoinc of
        (t1, Inl what) \<Rightarrow> (PioSetBoinc bBoinc # t1, Inl what)
      | (t1, Inr (boinc_platform_id, boinc_device_id)) \<Rightarrow>
          if banner_requested args then
            (PioSetBoinc bBoinc # t1 @ [PioError (header env args False) False] @
               (if bBoinc then [BoincFinish EXIT_SUCCESS] else []),
             Inr ())
          else
            (let t3 = PioSetBoinc bBoinc # t1 @ [PioPrint (header env args True)] @
                   (if args = [] then [PioPrint (usage env)] else []) @
                   [PlatformCtor, DisplayDevices]
             in if displayDevices env = 0 then (t3, Inl ''No OpenCL device'')
                else if args = [] then (t3, Inr ())
                else
                  (case parse_args env args of
                     Inl what \<Rightarrow> (t3, Inl what)
                   | Inr st \<Rightarrow>
                       if var_n st = 0 then (t3, Inr ())
                       else
                         (case run_engine env bBoinc boinc_platform_id boinc_device_id st of
                            (t4, r) \<Rightarrow> (t3 @ t4, r)))))"

definition main :: "env \<Rightarrow> string list \<Rightarrow> event list \<times> int" where
  "main env args =
     (case run env args of
        (t, Inr u) \<Rightarrow> (t, EXIT_SUCCESS)
      | (t, Inl what) \<Rightarrow>
          (t @ [PioError (endl @ ''error: '' @ what @ ''.'' @ endl) True], EXIT_FAILURE))"

section \<open>The stop handlers (lines 29 to 52)\<close>

text \<open>
  Modelled from the spec: the singleton controller \<^verbatim>\<open>genefer\<close> is declared in genefer.h, which
  is not among the sources. Of its state only the cooperative cancellation flag is named
  by the spec; it is the field \<open>quit_flag\<close>, and whatever else the controller holds is the
  record's extension.
\<close>

record genefer =
  quit_flag :: bool

text \<open>
  Modelled from the spec: \<^verbatim>\<open>genefer::quit()\<close> is defined in genefer.h, which is not among the
  sources. The spec's interface of the controller says: \<^verbatim>\<open>quit()\<close> "sets the cooperative
  cancellation flag".
\<close>

definition genefer_quit :: "'a genefer_scheme \<Rightarrow> 'a genefer_scheme" where
  "genefer_quit g = g\<lparr>quit_flag := True\<rparr>"

text \<open>\<^verbatim>\<open>application::quit(int)\<close> and, on Windows, \<^verbatim>\<open>application::HandlerRoutine(DWORD)\<close>,
  as functions of the singleton controller's state.\<close>

definition quit :: "int \<Rightarrow> 'a genefer_scheme \<Rightarrow> 'a genefer_scheme" where
  "quit signum g = genefer_quit g"

definition HandlerRoutine :: "32 word \<Rightarrow> 'a genefer_scheme \<Rightarrow> bool \<times> 'a genefer_scheme" where
  "HandlerRoutine dwCtrlType g = (True, quit 1 g)"

text \<open>
  The constructor \<^verbatim>\<open>application()\<close> registers \<^verbatim>\<open>HandlerRoutine\<close> for console control events
  on Windows, and \<^verbatim>\<open>quit\<close> for SIGTERM and SIGINT elsewhere. Delivering a stop request runs
  the handler registered for it, which stays registered.
\<close>

datatype stop_request = SIGTERM | SIGINT | ConsoleCtrl "32 word"

fun deliver :: "stop_request \<Rightarrow> 'a genefer_scheme \<Rightarrow> 'a genefer_scheme" where
  "deliver SIGTERM g = quit 15 g"
| "deliver SIGINT g = quit 2 g"
| "deliver (ConsoleCtrl dwCtrlType) g = snd (HandlerRoutine dwCtrlType g)"

definition deliver_all :: "stop_request list \<Rightarrow> 'a genefer_scheme \<Rightarrow> 'a genefer_scheme" where
  "deliver_all reqs g = fold deliver reqs g"

section \<open>Environments to run the model in\<close>

text \<open>A build without \<^verbatim>\<open>BOINC\<close> on a machine with one device, and a build with \<^verbatim>\<open>BOINC\<close>
  under a managing client that assigns platform 9 and device 7, on a machine with two
  devices. The engine throws nothing in either.\<close>

definition plain_env :: env where
  "plain_env =
     \<lparr>BOINC = False, sysver = ''linux64'', ssc = '' gcc-9.3.0'', atoi_overflow = (\<lambda>v. - 1),
      boinc_init = 0, boinc_is_standalone = True, boinc_get_opencl_ids = (0, 0, 0),
      displayDevices = 1, getDeviceCount = 1, engine_fault = (\<lambda>s. None)\<rparr>"

definition managed_env :: env where
  "managed_env =
     \<lparr>BOINC = True, sysver = ''linux64'', ssc = '' gcc-9.3.0'', atoi_overflow = (\<lambda>v. - 1),
      boinc_init = 0, boinc_is_standalone = False, boinc_get_opencl_ids = (0, 7, 9),
      displayDevices = 2, getDeviceCount = 2, engine_fault = (\<lambda>s. None)\<rparr>"



section \<open>Facts about the banner check\<close>

lemma banner_requested_iff: "banner_requested args \<longleftrightarrow> (\<exists>a\<in>set args. is_banner_flag a)"
  by (induction args) auto

lemma is_banner_flag_iff:
  "is_banner_flag arg \<longleftrightarrow>
     (\<exists>rest. arg = CHR ''-'' # CHR ''v'' # rest \<or> arg = CHR ''-'' # CHR ''V'' # rest)"
proof (cases arg)
  case Nil
  then show ?thesis by (simp add: is_banner_flag_def char_at_def)
next
  case (Cons c cs)
  then show ?thesis
    by (cases cs) (auto simp: is_banner_flag_def char_at_def)
qed

lemma run_banner:
  assumes "grid_init env (BOINC env \<and> ''-boinc'' \<in> set args) = (t1, Inr ids)"
    and "banner_requested args"
  shows "run env args =
    (PioSetBoinc (BOINC env \<and> ''-boinc'' \<in> set args) # t1 @
       [PioError (header env args False) False] @
       (if BOINC env \<and> ''-boinc'' \<in> set args then [BoincFinish EXIT_SUCCESS] else []),
     Inr ())"
  using assms by (cases ids) (simp add: run_def Let_def)

section \<open>Facts about the parsing loop\<close>

lemma parse_after_loop:
  "parse_after env args k = Inr (i, st) \<Longrightarrow> parse_args env args = parse_loop env args i st"
proof (induction k arbitrary: i st)
  case 0
  then show ?case by (simp add: parse_args_def)
next
  case (Suc k)
  show ?case
  proof (cases "parse_after env args k")
    case (Inl what)
    with Suc.prems show ?thesis by simp
  next
    case (Inr p)
    obtain j sj where p: "p = (j, sj)" by (cases p)
    have loop: "parse_args env args = parse_loop env args j sj"
      using Suc.IH Inr p by simp
    show ?thesis
    proof (cases "j < length args")
      case True
      with Suc.prems Inr p obtain i' where
        step: "parse_step env args j sj = Inr (i', st)" and i: "i = Suc i'"
        by (auto split: sum.splits)
      from True step have "parse_loop env args j sj = parse_loop env args (Suc i') st"
        by (subst parse_loop.simps) simp
      with loop i show ?thesis by simp
    next
      case False
      with Suc.prems Inr p have "i = j" "st = sj" by simp_all
      with loop show ?thesis by simp
    qed
  qed
qed

lemma parse_after_error:
  "parse_after env args k = Inl what \<Longrightarrow> parse_args env args = Inl what"
proof (induction k)
  case 0
  then show ?case by simp
next
  case (Suc k)
  show ?case
  proof (cases "parse_after env args k")
    case (Inl w)
    with Suc show ?thesis by simp
  next
    case (Inr p)
    obtain j sj where p: "p = (j, sj)" by (cases p)
    have loop: "parse_args env args = parse_loop env args j sj"
      using parse_after_loop Inr p by simp
    from Suc.prems Inr p have less: "j < length args" and step: "parse_step env args j sj = Inl what"
      by (auto split: if_splits sum.splits)
    then have "parse_loop env args j sj = Inl what"
      by (subst parse_loop.simps) simp
    with loop show ?thesis by simp
  qed
qed

text \<open>The loop ends within as many turns as there are arguments, so \<open>parse_after\<close> at the
  number of arguments is the loop's result.\<close>

lemma parse_step_index:
  "parse_step env args i st = Inr (i', st') \<Longrightarrow> i \<le> i'"
  by (auto simp: parse_step_def flag_value_def Let_def split: if_splits prod.splits sum.splits)

lemma parse_after_index:
  "parse_after env args k = Inr (i, st) \<Longrightarrow> k \<le> i \<or> length args \<le> i"
proof (induction k arbitrary: i st)
  case 0
  then show ?case by simp
next
  case (Suc k)
  from Suc.prems obtain j sj where prev: "parse_after env args k = Inr (j, sj)"
    by (auto split: sum.splits)
  from Suc.IH [OF prev] have j: "k \<le> j \<or> length args \<le> j" .
  show ?case
  proof (cases "j < length args")
    case True
    with Suc.prems prev obtain i' where "parse_step env args j sj = Inr (i', st)" "i = Suc i'"
      by (auto split: sum.splits)
    with parse_step_index [of env args j sj i' st] j True show ?thesis by simp
  next
    case False
    with Suc.prems prev show ?thesis by simp
  qed
qed

lemma parse_args_after:
  "parse_args env args =
     (case parse_after env args (length args) of Inl what \<Rightarrow> Inl what | Inr (i, st) \<Rightarrow> Inr st)"
proof (cases "parse_after env args (length args)")
  case (Inl what)
  then show ?thesis by (simp add: parse_after_error)
next
  case (Inr p)
  obtain i st where p: "p = (i, st)" by (cases p)
  from parse_after_index [of env args "length args" i st] Inr p have "\<not> i < length args"
    by simp
  then have "parse_loop env args i st = Inr st"
    by (subst parse_loop.simps) simp
  with parse_after_loop [of env args "length args" i st] Inr p show ?thesis by simp
qed

lemma parse_step_n:
  assumes "take 2 (args ! i) = ''-n''" and "flag_value args i ''-n'' 2 = (nval, i')"
  shows "parse_step env args i st =
    (if atoi (atoi_overflow env) nval < 8 then Inl ''n < 8 is not supported''
     else if atoi (atoi_overflow env) nval > 16 then Inl ''n > 16 is not supported''
     else Inr (i', st\<lparr>var_n := atoi (atoi_overflow env) nval\<rparr>))"
proof -
  from assms(1) have "args ! i \<noteq> ''-p''" by auto
  with assms show ?thesis by (simp add: parse_step_def Let_def)
qed



text \<open>The definitions that evaluate \<open>atoi\<close> on a given string.\<close>

lemmas atoi_eval =
  atoi_def decimal_def isdigit_def isspace_def digit_value_def INT_MIN_def INT_MAX_def

section \<open>Facts about atoi\<close>

lemma isdigit_not_space: "isdigit c \<Longrightarrow> \<not> isspace c"
  by (auto simp: isdigit_def isspace_def)

lemma isdigit_not_sign: "isdigit c \<Longrightarrow> c \<noteq> CHR ''-'' \<and> c \<noteq> CHR ''+''"
  by (auto simp: isdigit_def)

lemma digit_value_nonneg: "isdigit c \<Longrightarrow> 0 \<le> digit_value c"
  by (simp add: isdigit_def digit_value_def)

lemma foldl_digits_nonneg:
  "0 \<le> acc \<Longrightarrow> list_all isdigit ds \<Longrightarrow>
     0 \<le> foldl (\<lambda>acc c. 10 * acc + digit_value c) acc ds"
proof (induction ds arbitrary: acc)
  case Nil
  then show ?case by simp
next
  case (Cons c ds)
  from Cons.prems have "0 \<le> 10 * acc + digit_value c"
    using digit_value_nonneg [of c] by simp
  with Cons show ?case by simp
qed

lemma decimal_nonneg: "list_all isdigit ds \<Longrightarrow> 0 \<le> decimal ds"
  by (simp add: decimal_def foldl_digits_nonneg)

lemma atoi_no_digits:
  assumes "takeWhile isdigit (snd (strip_sign (dropWhile isspace s))) = []"
  shows "atoi ovf s = 0"
  using assms
  by (cases "strip_sign (dropWhile isspace s)")
     (simp add: atoi_def decimal_def INT_MIN_def INT_MAX_def)

lemma atoi_digits_prefix:
  assumes "ds \<noteq> []" and "list_all isdigit ds" and "rest = [] \<or> \<not> isdigit (hd rest)"
    and "decimal ds \<le> INT_MAX"
  shows "atoi ovf (ds @ rest) = decimal ds"
proof -
  from assms(1) obtain c cs where ds: "ds = c # cs" by (cases ds) auto
  with assms(2) have c: "isdigit c" by simp
  have drop: "dropWhile isspace (ds @ rest) = ds @ rest"
    using ds c isdigit_not_space by simp
  have sign: "strip_sign (ds @ rest) = (False, ds @ rest)"
    using ds c isdigit_not_sign [of c] by simp
  have "takeWhile isdigit (ds @ rest) = ds @ takeWhile isdigit rest"
    using assms(2) by (simp add: list_all_iff)
  moreover have "takeWhile isdigit rest = []"
    using assms(3) by (cases rest) auto
  ultimately have take: "takeWhile isdigit (ds @ rest) = ds" by simp
  have "INT_MIN \<le> decimal ds"
    using decimal_nonneg [OF assms(2)] by (simp add: INT_MIN_def)
  with assms(4) drop sign take show ?thesis
    by (simp add: atoi_def)
qed


section \<open>Facts about run and main\<close>

lemma grid_init_events:
  "set (fst (grid_init env b)) \<subseteq> {BoincInit, BoincIsStandalone, BoincGetOpenclIds}"
  by (auto simp: grid_init_def split: prod.splits)

lemma grid_init_off: "grid_init env False = ([], Inr (0, 0))"
  by (simp add: grid_init_def)

lemma main_banner:
  assumes "grid_init env (BOINC env \<and> ''-boinc'' \<in> set args) = (t1, Inr ids)"
    and "banner_requested args"
  shows "main env args =
    (PioSetBoinc (BOINC env \<and> ''-boinc'' \<in> set args) # t1 @
       [PioError (header env args False) False] @
       (if BOINC env \<and> ''-boinc'' \<in> set args then [BoincFinish EXIT_SUCCESS] else []),
     EXIT_SUCCESS)"
  by (simp add: main_def run_banner [OF assms])

lemma parse_step_keeps_n:
  "take 2 (args ! i) \<noteq> ''-n'' \<Longrightarrow> parse_step env args i st = Inr (i', st') \<Longrightarrow>
     var_n st' = var_n st"
  by (auto simp: parse_step_def Let_def split: if_splits prod.splits)

lemma parse_step_error_no_n:
  "take 2 (args ! i) \<noteq> ''-n'' \<Longrightarrow> parse_step env args i st = Inl what \<Longrightarrow>
     what = ''invalid device number''"
  by (auto simp: parse_step_def Let_def split: if_splits prod.splits)

lemma parse_loop_no_n:
  assumes "\<forall>a\<in>set args. take 2 a \<noteq> ''-n''"
  shows "(parse_loop env args i st = Inr st' \<longrightarrow> var_n st' = var_n st) \<and>
         (parse_loop env args i st = Inl what \<longrightarrow> what = ''invalid device number'')"
  using assms
proof (induction env args i st rule: parse_loop.induct)
  case (1 env args i st)
  show ?case
  proof (cases "i < length args")
    case False
    then show ?thesis by (subst (1 2) parse_loop.simps) auto
  next
    case True
    with "1.prems" have arg: "take 2 (args ! i) \<noteq> ''-n''" by simp
    show ?thesis
    proof (cases "parse_step env args i st")
      case (Inl w)
      with True have "parse_loop env args i st = Inl w"
        by (subst parse_loop.simps) simp
      with parse_step_error_no_n [OF arg Inl] show ?thesis by simp
    next
      case (Inr p)
      obtain j sj where p: "p = (j, sj)" by (cases p)
      from True Inr p have loop: "parse_loop env args i st = parse_loop env args (Suc j) sj"
        by (subst parse_loop.simps) simp
      from parse_step_keeps_n [OF arg] Inr p have "var_n sj = var_n st" by simp
      with "1.IH" [OF True Inr p [symmetric] "1.prems"] loop show ?thesis by simp
    qed
  qed
qed

lemma parse_args_no_n:
  assumes "\<forall>a\<in>set args. take 2 a \<noteq> ''-n''"
  shows "parse_args env args = Inr st \<Longrightarrow> var_n st = 0"
    and "parse_args env args = Inl what \<Longrightarrow> what = ''invalid device number''"
  using parse_loop_no_n [OF assms, of env 0 initial_locals st what]
  by (simp_all add: parse_args_def initial_locals_def)

lemma parse_args_Nil: "parse_args env [] = Inr initial_locals"
  by (simp add: parse_args_def parse_loop.simps)

text \<open>What run does when parsing leaves the exponent 0 or throws: everything but the engine.\<close>

lemma run_before_engine:
  assumes "grid_init env (BOINC env \<and> ''-boinc'' \<in> set args) = (t1, Inr ids)"
    and "\<not> banner_requested args"
  shows "fst (run env args) =
           PioSetBoinc (BOINC env \<and> ''-boinc'' \<in> set args) # t1 @
             [PioPrint (header env args True)] @
             (if args = [] then [PioPrint (usage env)] else []) @
             [PlatformCtor, DisplayDevices] @
           (if displayDevices env \<noteq> 0 \<and> args \<noteq> [] then
              (case parse_args env args of
                 Inl what \<Rightarrow> []
               | Inr st \<Rightarrow>
                   if var_n st = 0 then []
                   else fst (run_engine env (BOINC env \<and> ''-boinc'' \<in> set args) (fst ids) (snd ids) st))
            else [])"
    and "snd (run env args) =
           (if displayDevices env = 0 then Inl ''No OpenCL device''
            else if args = [] then Inr ()
            else
              (case parse_args env args of
                 Inl what \<Rightarrow> Inl what
               | Inr st \<Rightarrow>
                   if var_n st = 0 then Inr ()
                   else snd (run_engine env (BOINC env \<and> ''-boinc'' \<in> set args) (fst ids) (snd ids) st)))"
  using assms
  by (cases ids; simp add: run_def Let_def split: sum.splits prod.splits)+

lemma main_fst: "fst (main env args) =
    fst (run env args) @
    (case snd (run env args) of
       Inl what \<Rightarrow> [PioError (endl @ ''error: '' @ what @ ''.'' @ endl) True]
     | Inr u \<Rightarrow> [])"
  by (simp add: main_def split: prod.splits sum.splits)

lemma main_snd: "snd (main env args) =
    (case snd (run env args) of Inl what \<Rightarrow> EXIT_FAILURE | Inr u \<Rightarrow> EXIT_SUCCESS)"
  by (simp add: main_def split: prod.splits sum.splits)

lemma run_grid_failure:
  "grid_init env (BOINC env \<and> ''-boinc'' \<in> set args) = (t1, Inl what) \<Longrightarrow>
     run env args = (PioSetBoinc (BOINC env \<and> ''-boinc'' \<in> set args) # t1, Inl what)"
  by (simp add: run_def)

lemma no_engine_before_parse:
  assumes "set t1 \<subseteq> {BoincInit, BoincIsStandalone, BoincGetOpenclIds}"
  shows "\<not> list_ex is_EngineCtor
           (PioSetBoinc b # t1 @ [PioPrint h] @ (if c then [PioPrint u] else []) @
            [PlatformCtor, DisplayDevices])"
  using assms by (auto simp: list_ex_iff)

lemma parse_step_unknown:
  assumes "take 2 (args ! i) \<noteq> ''-n''" and "take 2 (args ! i) \<noteq> ''-f''"
    and "take 2 (args ! i) \<noteq> ''-d''" and "take 8 (args ! i) \<noteq> ''--device''"
    and "args ! i \<noteq> ''-p''"
  shows "parse_step env args i st = Inr (i, st)"
  using assms by (simp add: parse_step_def)

lemma exec_calls_Cons:
  "fst (exec_calls ((e, f) # cs)) = e # (case f of None \<Rightarrow> fst (exec_calls cs) | Some what \<Rightarrow> [])"
  by (cases f) (simp_all split: prod.splits)

lemma exec_calls_no_match:
  "list_all (\<lambda>c. \<not> P (fst c)) cs \<Longrightarrow> filter P (fst (exec_calls cs)) = []"
  by (induction cs rule: exec_calls.induct) (auto split: prod.splits)

lemma run_engine_fst:
  "\<exists>cs. list_all (\<lambda>c. \<not> is_EngineCtor (fst c)) cs \<and>
     fst (run_engine env b pid did st) =
       GenSetBoinc b #
       EngineCtor (if b \<and> did \<noteq> 0 \<and> pid \<noteq> 0 then BoincPlatform pid did else LocalPlatform)
         (if b \<and> did \<noteq> 0 \<and> pid \<noteq> 0 then 0 else var_d st) #
       (case engine_fault env AtEngine of
          None \<Rightarrow> fst (exec_calls cs) @
            (if b \<and> snd (exec_calls cs) = Inr () then [BoincFinish EXIT_SUCCESS] else [])
        | Some what \<Rightarrow> [])"
proof -
  let ?cs = "[(GenInit (var_n st) b, engine_fault env AtInit),
      (if var_filename st \<noteq> []
       then (GenCheckFile (var_filename st) (var_display st), engine_fault env AtCheckFile)
       else (GenBench, engine_fault env AtBench)),
      (GenRelease, engine_fault env AtRelease)]"
  have "list_all (\<lambda>c. \<not> is_EngineCtor (fst c)) ?cs" by simp
  moreover have "fst (run_engine env b pid did st) =
       GenSetBoinc b #
       EngineCtor (if b \<and> did \<noteq> 0 \<and> pid \<noteq> 0 then BoincPlatform pid did else LocalPlatform)
         (if b \<and> did \<noteq> 0 \<and> pid \<noteq> 0 then 0 else var_d st) #
       (case engine_fault env AtEngine of
          None \<Rightarrow> fst (exec_calls ?cs) @
            (if b \<and> snd (exec_calls ?cs) = Inr () then [BoincFinish EXIT_SUCCESS] else [])
        | Some what \<Rightarrow> [])"
    by (cases "engine_fault env AtEngine"; cases "exec_calls ?cs"; cases "snd (exec_calls ?cs)")
       (simp_all add: run_engine_def Let_def del: exec_calls.simps list.simps
          add: exec_calls.simps(2,3))
  ultimately show ?thesis by blast
qed

lemma run_engine_ctor:
  "filter is_EngineCtor (fst (run_engine env b pid did st)) =
     [EngineCtor (if b \<and> did \<noteq> 0 \<and> pid \<noteq> 0 then BoincPlatform pid did else LocalPlatform)
        (if b \<and> did \<noteq> 0 \<and> pid \<noteq> 0 then 0 else var_d st)]"
proof -
  from run_engine_fst [of env b pid did st] obtain cs where
    cs: "list_all (\<lambda>c. \<not> is_EngineCtor (fst c)) cs" and
    tr: "fst (run_engine env b pid did st) =
       GenSetBoinc b #
       EngineCtor (if b \<and> did \<noteq> 0 \<and> pid \<noteq> 0 then BoincPlatform pid did else LocalPlatform)
         (if b \<and> did \<noteq> 0 \<and> pid \<noteq> 0 then 0 else var_d st) #
       (case engine_fault env AtEngine of
          None \<Rightarrow> fst (exec_calls cs) @
            (if b \<and> snd (exec_calls cs) = Inr () then [BoincFinish EXIT_SUCCESS] else [])
        | Some what \<Rightarrow> [])"
    by blast
  from exec_calls_no_match [OF cs] show ?thesis
    unfolding tr by (simp split: option.splits)
qed

lemma grid_init_ids:
  assumes "grid_init env b = (t1, Inr (pid, did))"
  shows "(b \<and> did \<noteq> 0 \<and> pid \<noteq> 0 \<longleftrightarrow> b \<and> BOINC env \<and> \<not> boinc_is_standalone env) \<and>
         (b \<and> BOINC env \<and> \<not> boinc_is_standalone env \<longrightarrow> boinc_get_opencl_ids env = (0, did, pid))"
  using assms by (auto simp: grid_init_def split: if_splits prod.splits)

section \<open>Facts about the stop handlers\<close>

lemma genefer_quit_twice: "genefer_quit (genefer_quit g) = genefer_quit g"
  by (simp add: genefer_quit_def)

lemma deliver_quit: "deliver req g = genefer_quit g"
  by (cases req) (simp_all add: quit_def HandlerRoutine_def)

lemma deliver_all_quit: "reqs \<noteq> [] \<Longrightarrow> deliver_all reqs g = genefer_quit g"
proof (induction reqs arbitrary: g)
  case Nil
  then show ?case by simp
next
  case (Cons req reqs)
  show ?case
  proof (cases "reqs = []")
    case True
    then show ?thesis by (simp add: deliver_all_def deliver_quit)
  next
    case False
    from Cons.IH [OF False, of "deliver req g"]
    show ?thesis by (simp add: deliver_all_def deliver_quit genefer_quit_twice)
  qed
qed

section \<open>The flags that take a number, by what atoi returns\<close>



section \<open>The text of a number and what atoi reads from it\<close>

text \<open>\<open>digits10\<close> writes a number and \<open>decimal\<close> reads it back, so \<^verbatim>\<open>atoi\<close> returns the number
  whose decimal text it is given, after white space, a sign and leading zeros and before
  anything that does not begin with a digit, as long as the number fits an \<^verbatim>\<open>int\<close>.\<close>

lemma digit_char:
  assumes "k < 10"
  shows "isdigit (''0123456789'' ! k) \<and> digit_value (''0123456789'' ! k) = int k"
proof -
  from assms have "k = 0 \<or> k = 1 \<or> k = 2 \<or> k = 3 \<or> k = 4 \<or> k = 5 \<or> k = 6 \<or> k = 7 \<or> k = 8 \<or> k = 9"
    by arith
  then show ?thesis
    by (elim disjE) (simp_all add: isdigit_def digit_value_def)
qed

lemma decimal_snoc: "decimal (ds @ [c]) = 10 * decimal ds + digit_value c"
  by (simp add: decimal_def)

lemma digits10_props:
  "list_all isdigit (digits10 k) \<and> digits10 k \<noteq> [] \<and> decimal (digits10 k) = int k"
proof (induction k rule: digits10.induct)
  case (1 k)
  show ?case
  proof (cases "k < 10")
    case True
    then have d: "digits10 k = [''0123456789'' ! k]" by (subst digits10.simps) simp
    from digit_char [OF True] show ?thesis
      unfolding d by (simp add: decimal_def)
  next
    case False
    then have d: "digits10 k = digits10 (k div 10) @ [''0123456789'' ! (k mod 10)]"
      by (subst digits10.simps) simp
    have m: "k mod 10 < 10" by simp
    have e: "10 * int (k div 10) + int (k mod 10) = int k" by presburger
    from "1.IH" [OF False] digit_char [OF m] e
    show ?thesis
      unfolding d by (simp add: decimal_snoc)
  qed
qed

lemma show_int_nonneg_text:
  assumes "0 \<le> v"
  shows "show_int v = digits10 (nat v)"
  using assms by (simp add: show_int_def)

lemma atoi_show_int:
  assumes "INT_MIN \<le> v" and "v \<le> INT_MAX" and "rest = [] \<or> \<not> isdigit (hd rest)"
  shows "atoi ovf (show_int v @ rest) = v"
proof (cases "0 \<le> v")
  case True
  from digits10_props [of "nat v"] True
  have ds: "digits10 (nat v) \<noteq> []" "list_all isdigit (digits10 (nat v))"
    "decimal (digits10 (nat v)) = v"
    by simp_all
  from ds(3) assms(2) have "decimal (digits10 (nat v)) \<le> INT_MAX" by simp
  from atoi_digits_prefix [OF ds(1,2) assms(3) this, of ovf] ds(3) True
  show ?thesis by (simp add: show_int_def)
next
  case False
  let ?ds = "digits10 (nat (- v))"
  from digits10_props [of "nat (- v)"] False
  have ds: "?ds \<noteq> []" "list_all isdigit ?ds" "decimal ?ds = - v"
    by simp_all
  have shape: "show_int v @ rest = CHR ''-'' # ?ds @ rest"
    using False by (simp add: show_int_def)
  have sp: "dropWhile isspace (CHR ''-'' # ?ds @ rest) = CHR ''-'' # ?ds @ rest"
    by (simp add: isspace_def)
  have "takeWhile isdigit (?ds @ rest) = ?ds @ takeWhile isdigit rest"
    using ds(2) by (simp add: list_all_iff)
  moreover have "takeWhile isdigit rest = []"
    using assms(3) by (cases rest) auto
  ultimately have take: "takeWhile isdigit (?ds @ rest) = ?ds" by simp
  from assms(1,2) ds(3) take sp show ?thesis
    unfolding shape by (simp add: atoi_def)
qed






section \<open>The claims\<close>




text \<open>
  C2, at the no-exponent return. In a \<^verbatim>\<open>BOINC\<close> build with \<^verbatim>\<open>-boinc\<close> among the arguments,
  when grid mode has been entered (\<^verbatim>\<open>boinc_init\<close> was called and returned 0), no banner flag
  is present, a device is displayed and parsing ends with the exponent still 0, the
  process returns at line 214 and exits with success, and \<^verbatim>\<open>boinc_finish\<close> is never called:
  the completion call the claim requires once on this path is missing.
\<close>

theorem finish_skipped_without_exponent:
  assumes "BOINC env" and "''-boinc'' \<in> set args"
    and "grid_init env True = (t1, Inr ids)"
    and "\<not> banner_requested args"
    and "displayDevices env \<noteq> 0"
    and "parse_args env args = Inr st"
    and "var_n st = 0"
  shows "main env args =
           (PioSetBoinc True # t1 @ [PioPrint (header env args True), PlatformCtor, DisplayDevices],
            EXIT_SUCCESS) \<and>
         BoincInit \<in> set t1 \<and>
         boinc_init env = 0 \<and>
         filter is_BoincFinish (fst (main env args)) = []"
proof -
  from assms(1,2) have b: "(BOINC env \<and> ''-boinc'' \<in> set args) = True" by simp
  from assms(2) have ne: "args \<noteq> []" by auto
  have g: "grid_init env (BOINC env \<and> ''-boinc'' \<in> set args) = (t1, Inr ids)"
    unfolding b by (rule assms(3))
  have ev: "set t1 \<subseteq> {BoincInit, BoincIsStandalone, BoincGetOpenclIds}"
    using grid_init_events [of env True] assms(3) by simp
  from run_before_engine [OF g assms(4)] assms(5,6,7) ne
  have "run env args =
      (PioSetBoinc True # t1 @ [PioPrint (header env args True), PlatformCtor, DisplayDevices],
       Inr ())"
    by (simp add: prod_eq_iff b)
  then have m: "main env args =
      (PioSetBoinc True # t1 @ [PioPrint (header env args True), PlatformCtor, DisplayDevices],
       EXIT_SUCCESS)"
    by (simp add: main_def)
  have i: "BoincInit \<in> set t1 \<and> boinc_init env = 0"
    using assms(3) by (auto simp: grid_init_def split: if_splits prod.splits)
  have "filter is_BoincFinish t1 = []"
    using ev by (auto simp: filter_empty_conv)
  with m i show ?thesis by simp
qed

theorem finish_skipped_without_exponent_witness:
  "main managed_env [''-boinc''] =
     ([PioSetBoinc True, BoincInit, BoincIsStandalone, BoincGetOpenclIds,
       PioPrint (header managed_env [''-boinc''] True), PlatformCtor, DisplayDevices],
      EXIT_SUCCESS) \<and>
   filter is_BoincFinish (fst (main managed_env [''-boinc''])) = []"
proof -
  have b: "BOINC managed_env" by (simp add: managed_env_def)
  have g: "grid_init managed_env True =
      ([BoincInit, BoincIsStandalone, BoincGetOpenclIds], Inr (9, 7))"
    by (simp add: grid_init_def managed_env_def)
  have nb: "\<not> banner_requested [''-boinc'']"
    by (simp add: is_banner_flag_def char_at_def)
  have d: "displayDevices managed_env \<noteq> 0" by (simp add: managed_env_def)
  have p: "parse_args managed_env [''-boinc''] = Inr initial_locals" by code_simp
  have z: "var_n initial_locals = 0" by (simp add: initial_locals_def)
  from finish_skipped_without_exponent [OF b _ g nb d p z] show ?thesis by simp
qed

text \<open>
  C3, as amended. For every argument list that contains \<^verbatim>\<open>-v\<close> or \<^verbatim>\<open>-V\<close>, at any place and
  with any other flags, and provided that entering grid mode, when \<^verbatim>\<open>-boinc\<close> asks for it in
  a \<^verbatim>\<open>BOINC\<close> build, does not fail first: the process writes the banner and nothing else,
  calls \<^verbatim>\<open>boinc_finish(EXIT_SUCCESS)\<close> when in grid mode, and exits with success. Besides the
  calls on the grid client that entering grid mode made, it calls nothing: no flag is
  validated, no device is enumerated and no engine is built.
\<close>

theorem banner_exit:
  assumes "''-v'' \<in> set args \<or> ''-V'' \<in> set args"
    and "grid_init env (BOINC env \<and> ''-boinc'' \<in> set args) = (t1, Inr ids)"
  shows "main env args =
           (PioSetBoinc (BOINC env \<and> ''-boinc'' \<in> set args) # t1 @
              [PioError (header env args False) False] @
              (if BOINC env \<and> ''-boinc'' \<in> set args then [BoincFinish EXIT_SUCCESS] else []),
            EXIT_SUCCESS) \<and>
         set t1 \<subseteq> {BoincInit, BoincIsStandalone, BoincGetOpenclIds} \<and>
         (\<not> (BOINC env \<and> ''-boinc'' \<in> set args) \<longrightarrow> t1 = []) \<and>
         header env args False =
           ''genefer20 1.13.0 '' @ sysver env @ ssc env @ endl @
           ''Copyright (c) 2020, Yves Gallot'' @ endl @
           ''genefer20 is free source code, under the MIT license.'' @ endl"
proof -
  have "is_banner_flag ''-v''" "is_banner_flag ''-V''"
    by (simp_all add: is_banner_flag_def char_at_def)
  with assms(1) have "banner_requested args"
    by (auto simp: banner_requested_iff)
  with assms(2) have m: "main env args =
      (PioSetBoinc (BOINC env \<and> ''-boinc'' \<in> set args) # t1 @
         [PioError (header env args False) False] @
         (if BOINC env \<and> ''-boinc'' \<in> set args then [BoincFinish EXIT_SUCCESS] else []),
       EXIT_SUCCESS)"
    by (rule main_banner)
  have ev: "set t1 \<subseteq> {BoincInit, BoincIsStandalone, BoincGetOpenclIds}"
    using grid_init_events [of env "BOINC env \<and> ''-boinc'' \<in> set args"] assms(2) by simp
  have off: "t1 = []" if "\<not> (BOINC env \<and> ''-boinc'' \<in> set args)"
  proof -
    from that have e: "(BOINC env \<and> ''-boinc'' \<in> set args) = False" by simp
    from assms(2) show ?thesis unfolding e by (simp add: grid_init_off)
  qed
  have h: "header env args False =
      ''genefer20 1.13.0 '' @ sysver env @ ssc env @ endl @
      ''Copyright (c) 2020, Yves Gallot'' @ endl @
      ''genefer20 is free source code, under the MIT license.'' @ endl"
    by (simp add: header_def)
  from m ev off h show ?thesis by blast
qed

theorem banner_exit_witness:
  "main plain_env [''-n'', ''99'', ''-d'', ''7'', ''-V''] =
     ([PioSetBoinc False,
       PioError (header plain_env [''-n'', ''99'', ''-d'', ''7'', ''-V''] False) False],
      EXIT_SUCCESS) \<and>
   main managed_env [''-boinc'', ''-v''] =
     ([PioSetBoinc True, BoincInit, BoincIsStandalone, BoincGetOpenclIds,
       PioError (header managed_env [''-boinc'', ''-v''] False) False, BoincFinish EXIT_SUCCESS],
      EXIT_SUCCESS)"
proof -
  have g1: "grid_init plain_env (BOINC plain_env \<and> ''-boinc'' \<in> set [''-n'', ''99'', ''-d'', ''7'', ''-V''])
      = ([], Inr (0, 0))"
    by (simp add: grid_init_def plain_env_def)
  have g2: "grid_init managed_env (BOINC managed_env \<and> ''-boinc'' \<in> set [''-boinc'', ''-v''])
      = ([BoincInit, BoincIsStandalone, BoincGetOpenclIds], Inr (9, 7))"
    by (simp add: grid_init_def managed_env_def)
  have b1: "BOINC plain_env = False" by (simp add: plain_env_def)
  have b2: "BOINC managed_env = True" by (simp add: managed_env_def)
  have a: "main plain_env [''-n'', ''99'', ''-d'', ''7'', ''-V''] =
     ([PioSetBoinc False,
       PioError (header plain_env [''-n'', ''99'', ''-d'', ''7'', ''-V''] False) False],
      EXIT_SUCCESS)"
    using banner_exit [of "[''-n'', ''99'', ''-d'', ''7'', ''-V'']" plain_env "[]" "(0, 0)"] g1
    by (simp add: b1)
  have b: "main managed_env [''-boinc'', ''-v''] =
     ([PioSetBoinc True, BoincInit, BoincIsStandalone, BoincGetOpenclIds,
       PioError (header managed_env [''-boinc'', ''-v''] False) False, BoincFinish EXIT_SUCCESS],
      EXIT_SUCCESS)"
    using banner_exit [of "[''-boinc'', ''-v'']" managed_env
        "[BoincInit, BoincIsStandalone, BoincGetOpenclIds]" "(9, 7)"] g2
    by (simp add: b2)
  from a b show ?thesis by simp
qed

theorem banner_exit_counterexample:
  "main (managed_env\<lparr>boinc_init := 1\<rparr>) [''-v'', ''-boinc''] =
     ([PioSetBoinc True, BoincInit,
       PioError (endl @ ''error: boinc_init returned 1.'' @ endl) True],
      EXIT_FAILURE)"
proof -
  have g: "grid_init (managed_env\<lparr>boinc_init := 1\<rparr>) True =
      ([BoincInit], Inl ''boinc_init returned 1'')"
    by (simp add: grid_init_def show_int_def digits10.simps)
  have b: "(BOINC (managed_env\<lparr>boinc_init := 1\<rparr>) \<and> ''-boinc'' \<in> set [''-v'', ''-boinc'']) = True"
    by (simp add: managed_env_def)
  have "run (managed_env\<lparr>boinc_init := 1\<rparr>) [''-v'', ''-boinc''] =
      ([PioSetBoinc True, BoincInit], Inl ''boinc_init returned 1'')"
    using run_grid_failure [of "managed_env\<lparr>boinc_init := 1\<rparr>" "[''-v'', ''-boinc'']"
        "[BoincInit]" "''boinc_init returned 1''"] g
    unfolding b by simp
  then show ?thesis by (simp add: main_def)
qed

text \<open>
  C4, as amended. For every non-empty argument list in which no token begins with \<^verbatim>\<open>-n\<close>,
  whatever other flags it holds, the engine is never built; the only exception parsing
  can throw is "invalid device number"; and the process exits with success exactly when
  no fatal error comes first, that is, when entering grid mode does not fail and either a
  banner flag is present or at least one device is displayed and parsing throws nothing.
\<close>

theorem no_exponent_no_engine:
  assumes "args \<noteq> []"
    and "\<forall>a\<in>set args. take 2 a \<noteq> ''-n''"
  shows "\<not> list_ex is_EngineCtor (fst (main env args)) \<and>
         (parse_args env args = Inl what \<longrightarrow> what = ''invalid device number'') \<and>
         (snd (main env args) = EXIT_SUCCESS \<longleftrightarrow>
            (\<exists>t1 ids. grid_init env (BOINC env \<and> ''-boinc'' \<in> set args) = (t1, Inr ids)) \<and>
            (banner_requested args \<or>
             displayDevices env \<noteq> 0 \<and> (\<exists>st. parse_args env args = Inr st)))"
proof -
  let ?b = "BOINC env \<and> ''-boinc'' \<in> set args"
  obtain t1 r where g: "grid_init env ?b = (t1, r)" by (cases "grid_init env ?b")
  have ev: "set t1 \<subseteq> {BoincInit, BoincIsStandalone, BoincGetOpenclIds}"
    using grid_init_events [of env ?b] g by simp
  have zero: "var_n st = 0" if "parse_args env args = Inr st" for st
    using that by (rule parse_args_no_n(1) [OF assms(2)])
  have err: "what = ''invalid device number''" if "parse_args env args = Inl what"
    using that by (rule parse_args_no_n(2) [OF assms(2)])
  show ?thesis
  proof (cases r)
    case (Inl w)
    with g have "run env args = (PioSetBoinc ?b # t1, Inl w)"
      by (simp add: run_grid_failure)
    then have "fst (main env args) =
        PioSetBoinc ?b # t1 @ [PioError (endl @ ''error: '' @ w @ ''.'' @ endl) True]"
      and "snd (main env args) = EXIT_FAILURE"
      by (simp_all add: main_def)
    with ev g Inl err show ?thesis by (auto simp: list_ex_iff)
  next
    case (Inr ids)
    show ?thesis
    proof (cases "banner_requested args")
      case True
      from main_banner [OF g [unfolded Inr] True] ev g Inr True err
      show ?thesis by (auto simp: list_ex_iff)
    next
      case False
      note rb = run_before_engine [OF g [unfolded Inr] False]
      have tr: "fst (run env args) =
          PioSetBoinc ?b # t1 @ [PioPrint (header env args True)] @
            (if args = [] then [PioPrint (usage env)] else []) @ [PlatformCtor, DisplayDevices]"
        using rb(1) zero by (simp split: sum.splits)
      have res: "snd (run env args) =
          (if displayDevices env = 0 then Inl ''No OpenCL device''
           else (case parse_args env args of Inl w \<Rightarrow> Inl w | Inr st \<Rightarrow> Inr ()))"
        using rb(2) zero assms(1) by (simp split: sum.splits)
      have "\<not> list_ex is_EngineCtor (fst (run env args))"
        unfolding tr using ev by (rule no_engine_before_parse)
      then have a: "\<not> list_ex is_EngineCtor (fst (main env args))"
        by (auto simp: main_fst list_ex_iff split: sum.splits)
      have b: "snd (main env args) = EXIT_SUCCESS \<longleftrightarrow>
          displayDevices env \<noteq> 0 \<and> (\<exists>st. parse_args env args = Inr st)"
        by (simp add: main_snd res split: sum.splits)
      from a b err g Inr False show ?thesis by simp
    qed
  qed
qed

theorem no_exponent_no_engine_witness:
  "\<not> list_ex is_EngineCtor (fst (main plain_env [''-d'', ''0'', ''-f'', ''list.txt'', ''-p''])) \<and>
   snd (main plain_env [''-d'', ''0'', ''-f'', ''list.txt'', ''-p'']) = EXIT_SUCCESS"
proof -
  let ?args = "[''-d'', ''0'', ''-f'', ''list.txt'', ''-p'']"
  have g: "grid_init plain_env (BOINC plain_env \<and> ''-boinc'' \<in> set ?args) = ([], Inr (0, 0))"
    by (simp add: grid_init_def plain_env_def)
  have dd: "displayDevices plain_env \<noteq> 0" by (simp add: plain_env_def)
  have p: "parse_args plain_env ?args =
      Inr (initial_locals\<lparr>var_d := 0, var_filename := ''list.txt'', var_display := True\<rparr>)"
    by code_simp
  from no_exponent_no_engine [of ?args plain_env] g dd p show ?thesis
    by simp
qed

theorem no_exponent_no_engine_counterexample:
  "main plain_env [''-d'', ''5''] =
     ([PioSetBoinc False, PioPrint (header plain_env [''-d'', ''5''] True), PlatformCtor,
       DisplayDevices, PioError (endl @ ''error: invalid device number.'' @ endl) True],
      EXIT_FAILURE)"
proof -
  let ?args = "[''-d'', ''5'']"
  have g: "grid_init plain_env (BOINC plain_env \<and> ''-boinc'' \<in> set ?args) = ([], Inr (0, 0))"
    by (simp add: grid_init_def plain_env_def)
  have nb: "\<not> banner_requested ?args"
    by (simp add: is_banner_flag_def char_at_def)
  have dd: "displayDevices plain_env \<noteq> 0" by (simp add: plain_env_def)
  have count: "getDeviceCount plain_env = 1" by (simp add: plain_env_def)
  have b: "BOINC plain_env = False" by (simp add: plain_env_def)
  have v5: "atoi ovf ''5'' = 5" for ovf by (simp add: atoi_eval)
  have s1: "parse_step plain_env ?args 0 initial_locals = Inl ''invalid device number''"
    by (simp add: parse_step_def flag_value_def v5 count)
  have p: "parse_args plain_env ?args = Inl ''invalid device number''"
    unfolding parse_args_def by (subst parse_loop.simps) (simp add: s1)
  from run_before_engine [OF g nb] dd p b
  have "run plain_env ?args =
      ([PioSetBoinc False, PioPrint (header plain_env ?args True), PlatformCtor, DisplayDevices],
       Inl ''invalid device number'')"
    by (simp add: prod_eq_iff)
  then show ?thesis by (simp add: main_def)
qed

text \<open>
  C5, as amended. With an empty argument list and \<^verbatim>\<open>platform.displayDevices()\<close> returning 0,
  the process prints the banner with the command line, then the usage text, then builds
  the platform and displays the devices, and only then fails with "No OpenCL device",
  reported as an error, with exit status failure: the usage text is printed before the
  failure, not after it.
\<close>

theorem no_device_after_usage:
  assumes "displayDevices env = 0"
  shows "main env [] =
           ([PioSetBoinc False, PioPrint (header env [] True), PioPrint (usage env),
             PlatformCtor, DisplayDevices,
             PioError (endl @ ''error: No OpenCL device.'' @ endl) True],
            EXIT_FAILURE)"
proof -
  have g: "grid_init env (BOINC env \<and> ''-boinc'' \<in> set []) = ([], Inr (0, 0))"
    by (simp add: grid_init_off)
  have nb: "\<not> banner_requested []" by simp
  from run_before_engine [OF g nb] assms
  have "run env [] =
      ([PioSetBoinc False, PioPrint (header env [] True), PioPrint (usage env),
        PlatformCtor, DisplayDevices],
       Inl ''No OpenCL device'')"
    by (simp add: prod_eq_iff)
  then show ?thesis by (simp add: main_def)
qed

theorem no_device_after_usage_witness:
  "main (plain_env\<lparr>displayDevices := 0\<rparr>) [] =
     ([PioSetBoinc False, PioPrint (header (plain_env\<lparr>displayDevices := 0\<rparr>) [] True),
       PioPrint (usage (plain_env\<lparr>displayDevices := 0\<rparr>)), PlatformCtor, DisplayDevices,
       PioError (endl @ ''error: No OpenCL device.'' @ endl) True],
      EXIT_FAILURE)"
  using no_device_after_usage [of "plain_env\<lparr>displayDevices := 0\<rparr>"] by simp

theorem no_device_after_usage_counterexample:
  "snd (main (plain_env\<lparr>displayDevices := 0\<rparr>) []) = EXIT_FAILURE \<and>
   fst (main (plain_env\<lparr>displayDevices := 0\<rparr>) []) ! 2 =
     PioPrint (usage (plain_env\<lparr>displayDevices := 0\<rparr>)) \<and>
   fst (main (plain_env\<lparr>displayDevices := 0\<rparr>) []) ! 4 = DisplayDevices \<and>
   fst (main (plain_env\<lparr>displayDevices := 0\<rparr>) []) ! 5 =
     PioError (endl @ ''error: No OpenCL device.'' @ endl) True"
proof -
  let ?e = "plain_env\<lparr>displayDevices := 0\<rparr>"
  have g: "grid_init ?e (BOINC ?e \<and> ''-boinc'' \<in> set []) = ([], Inr (0, 0))"
    by (simp add: grid_init_off)
  have nb: "\<not> banner_requested []" by simp
  from run_before_engine [OF g nb]
  have "run ?e [] =
      ([PioSetBoinc False, PioPrint (header ?e [] True), PioPrint (usage ?e),
        PlatformCtor, DisplayDevices],
       Inl ''No OpenCL device'')"
    by (simp add: prod_eq_iff)
  then show ?thesis by (simp add: main_def)
qed




text \<open>
  C7. When the run reaches the engine (grid mode entered without failure when asked for,
  no banner flag, a device displayed, parsing ended with a non-zero exponent), exactly one
  engine is built. In grid mode with non-null platform and device identities from the
  client, which is the case exactly when the client is a managing one (not standalone),
  it is built on the platform made from that pair with device index 0, whatever
  \<^verbatim>\<open>-d\<close> or \<^verbatim>\<open>--device\<close> said; otherwise it is built on the local platform with the parsed
  device index \<^verbatim>\<open>d\<close>.
\<close>

theorem engine_device_resolution:
  assumes "grid_init env (BOINC env \<and> ''-boinc'' \<in> set args) =
      (t1, Inr (boinc_platform_id, boinc_device_id))"
    and "\<not> banner_requested args"
    and "displayDevices env \<noteq> 0"
    and "parse_args env args = Inr st"
    and "var_n st \<noteq> 0"
  shows "filter is_EngineCtor (fst (main env args)) =
           [if (BOINC env \<and> ''-boinc'' \<in> set args) \<and> boinc_device_id \<noteq> 0 \<and> boinc_platform_id \<noteq> 0
            then EngineCtor (BoincPlatform boinc_platform_id boinc_device_id) 0
            else EngineCtor LocalPlatform (var_d st)] \<and>
         ((BOINC env \<and> ''-boinc'' \<in> set args) \<and> boinc_device_id \<noteq> 0 \<and> boinc_platform_id \<noteq> 0 \<longleftrightarrow>
            (BOINC env \<and> ''-boinc'' \<in> set args) \<and> \<not> boinc_is_standalone env) \<and>
         ((BOINC env \<and> ''-boinc'' \<in> set args) \<and> \<not> boinc_is_standalone env \<longrightarrow>
            boinc_get_opencl_ids env = (0, boinc_device_id, boinc_platform_id))"
proof -
  let ?b = "BOINC env \<and> ''-boinc'' \<in> set args"
  have ne: "args \<noteq> []"
  proof
    assume "args = []"
    with assms(4) have "st = initial_locals" by (simp add: parse_args_Nil)
    with assms(5) show False by (simp add: initial_locals_def)
  qed
  have ev: "set t1 \<subseteq> {BoincInit, BoincIsStandalone, BoincGetOpenclIds}"
    using grid_init_events [of env ?b] assms(1) by simp
  then have t1: "filter is_EngineCtor t1 = []"
    by (auto simp: filter_empty_conv)
  from run_before_engine(1) [OF assms(1,2)] assms(3,4,5) ne
  have "fst (run env args) =
      PioSetBoinc ?b # t1 @ [PioPrint (header env args True), PlatformCtor, DisplayDevices] @
      fst (run_engine env ?b boinc_platform_id boinc_device_id st)"
    by simp
  then have "filter is_EngineCtor (fst (main env args)) =
      filter is_EngineCtor (fst (run_engine env ?b boinc_platform_id boinc_device_id st))"
    by (simp add: main_fst t1 split: sum.splits)
  then have a: "filter is_EngineCtor (fst (main env args)) =
      [if ?b \<and> boinc_device_id \<noteq> 0 \<and> boinc_platform_id \<noteq> 0
       then EngineCtor (BoincPlatform boinc_platform_id boinc_device_id) 0
       else EngineCtor LocalPlatform (var_d st)]"
    by (simp add: run_engine_ctor)
  from grid_init_ids [OF assms(1)]
  have b: "(?b \<and> boinc_device_id \<noteq> 0 \<and> boinc_platform_id \<noteq> 0 \<longleftrightarrow> ?b \<and> \<not> boinc_is_standalone env)"
    and c: "(?b \<and> \<not> boinc_is_standalone env \<longrightarrow>
      boinc_get_opencl_ids env = (0, boinc_device_id, boinc_platform_id))"
    by blast+
  from a b c show ?thesis by blast
qed

theorem engine_device_resolution_witness:
  "filter is_EngineCtor (fst (main managed_env [''-boinc'', ''-n'', ''10'', ''-d'', ''1''])) =
     [EngineCtor (BoincPlatform 9 7) 0] \<and>
   filter is_EngineCtor
     (fst (main (managed_env\<lparr>boinc_is_standalone := True\<rparr>) [''-boinc'', ''-n'', ''10'', ''-d'', ''1''])) =
     [EngineCtor LocalPlatform 1] \<and>
   filter is_EngineCtor (fst (main plain_env [''-n'', ''10''])) = [EngineCtor LocalPlatform 0]"
proof -
  let ?args = "[''-boinc'', ''-n'', ''10'', ''-d'', ''1'']"
  let ?st = "initial_locals\<lparr>var_n := 10, var_d := 1\<rparr>"
  let ?se = "managed_env\<lparr>boinc_is_standalone := True\<rparr>"
  have nb: "\<not> banner_requested ?args" "\<not> banner_requested [''-n'', ''10'']"
    by (simp_all add: is_banner_flag_def char_at_def)
  have g1: "grid_init managed_env (BOINC managed_env \<and> ''-boinc'' \<in> set ?args) =
      ([BoincInit, BoincIsStandalone, BoincGetOpenclIds], Inr (9, 7))"
    by (simp add: grid_init_def managed_env_def)
  have g2: "grid_init ?se (BOINC ?se \<and> ''-boinc'' \<in> set ?args) =
      ([BoincInit, BoincIsStandalone], Inr (0, 0))"
    by (simp add: grid_init_def managed_env_def)
  have g3: "grid_init plain_env (BOINC plain_env \<and> ''-boinc'' \<in> set [''-n'', ''10'']) =
      ([], Inr (0, 0))"
    by (simp add: grid_init_def plain_env_def)
  have d: "displayDevices managed_env \<noteq> 0" "displayDevices ?se \<noteq> 0" "displayDevices plain_env \<noteq> 0"
    by (simp_all add: managed_env_def plain_env_def)
  have p1: "parse_args managed_env ?args = Inr ?st" by code_simp
  have p2: "parse_args ?se ?args = Inr ?st" by code_simp
  have p3: "parse_args plain_env [''-n'', ''10''] = Inr (initial_locals\<lparr>var_n := 10\<rparr>)"
    by code_simp
  have b: "BOINC managed_env" "BOINC ?se" "\<not> BOINC plain_env"
    by (simp_all add: managed_env_def plain_env_def)
  have a1: "filter is_EngineCtor (fst (main managed_env ?args)) = [EngineCtor (BoincPlatform 9 7) 0]"
    using engine_device_resolution [OF g1 nb(1) d(1) p1] b(1) by simp
  have a2: "filter is_EngineCtor (fst (main ?se ?args)) = [EngineCtor LocalPlatform 1]"
    using engine_device_resolution [OF g2 nb(1) d(2) p2] by simp
  have a3: "filter is_EngineCtor (fst (main plain_env [''-n'', ''10''])) = [EngineCtor LocalPlatform 0]"
    using engine_device_resolution [OF g3 nb(2) d(3) p3] by (simp add: initial_locals_def)
  from a1 a2 a3 show ?thesis by simp
qed

text \<open>
  C8. Every delivery of a stop request (SIGTERM, SIGINT or a console control event) does
  what the controller's \<^verbatim>\<open>quit()\<close> does and nothing else, and leaves the cancellation flag
  set. After one or more deliveries the flag is set and the state is the same as after a
  single delivery; a flag that is set stays set under any further deliveries.
\<close>

theorem stop_requests_idempotent:
  "deliver req g = genefer_quit g \<and>
   quit_flag (deliver req g) \<and>
   (reqs \<noteq> [] \<longrightarrow> quit_flag (deliver_all reqs g) \<and> deliver_all reqs g = deliver req g) \<and>
   (quit_flag g \<longrightarrow> quit_flag (deliver_all reqs g))"
proof -
  have a: "deliver req g = genefer_quit g" by (rule deliver_quit)
  have b: "quit_flag (genefer_quit g)" by (simp add: genefer_quit_def)
  have c: "deliver_all reqs g = genefer_quit g" if "reqs \<noteq> []"
    using that by (rule deliver_all_quit)
  have d: "quit_flag (deliver_all reqs g)" if "quit_flag g"
  proof (cases "reqs = []")
    case True
    with that show ?thesis by (simp add: deliver_all_def)
  next
    case False
    with b show ?thesis by (simp add: deliver_all_quit)
  qed
  from a b c d show ?thesis by simp
qed

theorem stop_requests_idempotent_witness:
  "deliver_all [SIGINT, SIGTERM, SIGINT] \<lparr>quit_flag = False\<rparr> = \<lparr>quit_flag = True\<rparr> \<and>
   deliver_all [ConsoleCtrl 0, ConsoleCtrl 2] \<lparr>quit_flag = False\<rparr> = deliver (ConsoleCtrl 0) \<lparr>quit_flag = False\<rparr> \<and>
   quit_flag (deliver_all [] \<lparr>quit_flag = True\<rparr>)"
proof -
  have a: "deliver_all [SIGINT, SIGTERM, SIGINT] \<lparr>quit_flag = False\<rparr> = \<lparr>quit_flag = True\<rparr>"
    using stop_requests_idempotent [of SIGINT "\<lparr>quit_flag = False\<rparr>" "[SIGINT, SIGTERM, SIGINT]"]
    by (simp add: genefer_quit_def)
  have b: "deliver_all [ConsoleCtrl 0, ConsoleCtrl 2] \<lparr>quit_flag = False\<rparr> =
      deliver (ConsoleCtrl 0) \<lparr>quit_flag = False\<rparr>"
    using stop_requests_idempotent [of "ConsoleCtrl 0" "\<lparr>quit_flag = False\<rparr>"
        "[ConsoleCtrl 0, ConsoleCtrl 2]"]
    by simp
  have c: "quit_flag (deliver_all [] \<lparr>quit_flag = True\<rparr>)"
    using stop_requests_idempotent [of SIGINT "\<lparr>quit_flag = True\<rparr>" "[]"] by simp
  from a b c show ?thesis by simp
qed

text \<open>
  C9. Wherever the parsing loop stands at a \<^verbatim>\<open>-n\<close> flag: if the flag is the token \<^verbatim>\<open>-n\<close>
  itself and the last one, its value is the empty string and parsing fails with
  "n < 8 is not supported"; if the value has no digit where \<^verbatim>\<open>atoi\<close> looks for one (after
  white space and a sign), \<^verbatim>\<open>atoi\<close> returns 0 and parsing fails with the same message,
  there being no other error for a malformed value; and if the value is a run of digits
  \<open>ds\<close> followed by characters that do not start with a digit, \<^verbatim>\<open>atoi\<close> returns the
  number \<open>ds\<close> spells, which is stored as the exponent when it is one of 8, ..., 16.
\<close>

theorem exponent_atoi_fallthrough:
  assumes "parse_after env args k = Inr (i, st)"
    and "i < length args"
    and "take 2 (args ! i) = ''-n''"
    and "flag_value args i ''-n'' 2 = (nval, i')"
  shows "(args ! i = ''-n'' \<and> Suc i = length args \<longrightarrow>
            nval = [] \<and> parse_args env args = Inl ''n < 8 is not supported'') \<and>
         (takeWhile isdigit (snd (strip_sign (dropWhile isspace nval))) = [] \<longrightarrow>
            atoi (atoi_overflow env) nval = 0 \<and>
            parse_args env args = Inl ''n < 8 is not supported'') \<and>
         (nval = ds @ rest \<and> ds \<noteq> [] \<and> list_all isdigit ds \<and>
          (rest = [] \<or> \<not> isdigit (hd rest)) \<and> 8 \<le> decimal ds \<and> decimal ds \<le> 16 \<longrightarrow>
            atoi (atoi_overflow env) nval = decimal ds \<and>
            parse_after env args (Suc k) = Inr (Suc i', st\<lparr>var_n := decimal ds\<rparr>))"
proof -
  let ?n = "atoi (atoi_overflow env) nval"
  note step = parse_step_n [OF assms(3) assms(4), of env st]
  have zero: "parse_args env args = Inl ''n < 8 is not supported''" if "?n = 0"
  proof -
    from that assms(1,2) step
    have "parse_after env args (Suc k) = Inl ''n < 8 is not supported''" by simp
    then show ?thesis by (rule parse_after_error)
  qed
  have missing: "nval = []" if "args ! i = ''-n''" "Suc i = length args"
    using that assms(4) by (auto simp: flag_value_def)
  have empty: "atoi (atoi_overflow env) [] = 0"
    by (rule atoi_no_digits) simp
  have nodigit: "?n = 0"
    if "takeWhile isdigit (snd (strip_sign (dropWhile isspace nval))) = []"
    using that by (rule atoi_no_digits)
  have prefix: "?n = decimal ds \<and>
      parse_after env args (Suc k) = Inr (Suc i', st\<lparr>var_n := decimal ds\<rparr>)"
    if "nval = ds @ rest" "ds \<noteq> []" "list_all isdigit ds" "rest = [] \<or> \<not> isdigit (hd rest)"
      "8 \<le> decimal ds" "decimal ds \<le> 16"
  proof -
    from that(6) have "decimal ds \<le> INT_MAX" by (simp add: INT_MAX_def)
    with that have n: "?n = decimal ds" by (simp add: atoi_digits_prefix)
    with that(5,6) assms(1,2) step show ?thesis by simp
  qed
  from zero missing empty nodigit prefix show ?thesis by blast
qed

theorem exponent_atoi_fallthrough_witness:
  "parse_args plain_env [''-p'', ''-n''] = Inl ''n < 8 is not supported'' \<and>
   parse_args plain_env [''-n'', ''abc''] = Inl ''n < 8 is not supported'' \<and>
   parse_args plain_env [''-nine''] = Inl ''n < 8 is not supported'' \<and>
   atoi (atoi_overflow plain_env) ''12abc'' = 12 \<and>
   parse_after plain_env [''-n'', ''12abc''] 1 = Inr (2, initial_locals\<lparr>var_n := 12\<rparr>)"
proof -
  have st: "parse_after plain_env [''-p'', ''-n''] (Suc 0) =
      Inr (1, initial_locals\<lparr>var_display := True\<rparr>)"
    by (simp add: parse_step_def)
  have a: "parse_args plain_env [''-p'', ''-n''] = Inl ''n < 8 is not supported''"
    using exponent_atoi_fallthrough [of plain_env "[''-p'', ''-n'']" "Suc 0" 1
        "initial_locals\<lparr>var_display := True\<rparr>" "[]" 1] st
    by (simp add: flag_value_def)
  have b: "parse_args plain_env [''-n'', ''abc''] = Inl ''n < 8 is not supported''"
    using exponent_atoi_fallthrough [of plain_env "[''-n'', ''abc'']" 0 0 initial_locals "''abc''" 1]
    by (simp add: flag_value_def isdigit_def isspace_def)
  have c: "parse_args plain_env [''-nine''] = Inl ''n < 8 is not supported''"
    using exponent_atoi_fallthrough [of plain_env "[''-nine'']" 0 0 initial_locals "''ine''" 0]
    by (simp add: flag_value_def isdigit_def isspace_def)
  have d: "atoi (atoi_overflow plain_env) ''12abc'' = 12 \<and>
      parse_after plain_env [''-n'', ''12abc''] 1 = Inr (2, initial_locals\<lparr>var_n := 12\<rparr>)"
    using exponent_atoi_fallthrough [of plain_env "[''-n'', ''12abc'']" 0 0 initial_locals
        "''12abc''" 1 "''12''" "''abc''"]
    by (simp add: flag_value_def isdigit_def decimal_def digit_value_def)
  from a b c d show ?thesis by simp
qed

text \<open>
  C10. The banner check looks at the first two characters only: an argument passes it
  exactly when it starts with \<^verbatim>\<open>-v\<close> or \<^verbatim>\<open>-V\<close>, so \<^verbatim>\<open>-verbose\<close> and \<^verbatim>\<open>-version\<close> pass and
  \<^verbatim>\<open>--device\<close> does not. Any argument that passes sends the run down the banner exit
  (once grid mode, if asked for, has been entered), whereas the parsing loop leaves index
  and locals as they are at a token that is none of its flags.
\<close>

theorem banner_check_by_prefix:
  "(is_banner_flag arg \<longleftrightarrow>
      (\<exists>rest. arg = CHR ''-'' # CHR ''v'' # rest \<or> arg = CHR ''-'' # CHR ''V'' # rest)) \<and>
   is_banner_flag ''-verbose'' \<and> is_banner_flag ''-version'' \<and> \<not> is_banner_flag ''--device'' \<and>
   (arg \<in> set args \<and> is_banner_flag arg \<and>
    grid_init env (BOINC env \<and> ''-boinc'' \<in> set args) = (t1, Inr ids) \<longrightarrow>
      main env args =
        (PioSetBoinc (BOINC env \<and> ''-boinc'' \<in> set args) # t1 @
           [PioError (header env args False) False] @
           (if BOINC env \<and> ''-boinc'' \<in> set args then [BoincFinish EXIT_SUCCESS] else []),
         EXIT_SUCCESS)) \<and>
   (take 2 (args ! i) \<noteq> ''-n'' \<and> take 2 (args ! i) \<noteq> ''-f'' \<and> take 2 (args ! i) \<noteq> ''-d'' \<and>
    take 8 (args ! i) \<noteq> ''--device'' \<and> args ! i \<noteq> ''-p'' \<longrightarrow>
      parse_step env args i st = Inr (i, st))"
proof -
  have ex: "is_banner_flag ''-verbose''" "is_banner_flag ''-version''"
    "\<not> is_banner_flag ''--device''"
    by (simp_all add: is_banner_flag_def char_at_def)
  have run: "main env args =
        (PioSetBoinc (BOINC env \<and> ''-boinc'' \<in> set args) # t1 @
           [PioError (header env args False) False] @
           (if BOINC env \<and> ''-boinc'' \<in> set args then [BoincFinish EXIT_SUCCESS] else []),
         EXIT_SUCCESS)"
    if "arg \<in> set args" "is_banner_flag arg"
      "grid_init env (BOINC env \<and> ''-boinc'' \<in> set args) = (t1, Inr ids)"
  proof -
    from that(1,2) have "banner_requested args" by (auto simp: banner_requested_iff)
    with that(3) show ?thesis by (rule main_banner)
  qed
  from is_banner_flag_iff [of arg] ex run parse_step_unknown [of args i env st]
  show ?thesis by blast
qed

theorem banner_check_by_prefix_witness:
  "main plain_env [''-n'', ''12'', ''-verbose''] =
     ([PioSetBoinc False, PioError (header plain_env [''-n'', ''12'', ''-verbose''] False) False],
      EXIT_SUCCESS) \<and>
   parse_step plain_env [''-x'', ''-n'', ''12''] 0 initial_locals = Inr (0, initial_locals)"
proof -
  let ?args = "[''-n'', ''12'', ''-verbose'']"
  have g: "grid_init plain_env (BOINC plain_env \<and> ''-boinc'' \<in> set ?args) = ([], Inr (0, 0))"
    by (simp add: grid_init_def plain_env_def)
  have b: "BOINC plain_env = False" by (simp add: plain_env_def)
  have f: "is_banner_flag ''-verbose''" by (simp add: is_banner_flag_def char_at_def)
  have a: "main plain_env ?args =
     ([PioSetBoinc False, PioError (header plain_env ?args False) False], EXIT_SUCCESS)"
    using banner_check_by_prefix [of "''-verbose''" ?args plain_env "[]" "(0, 0)"] g f
    by (simp add: b)
  have c: "parse_step plain_env [''-x'', ''-n'', ''12''] 0 initial_locals = Inr (0, initial_locals)"
    using banner_check_by_prefix [where args = "[''-x'', ''-n'', ''12'']" and i = 0 and env = plain_env
        and st = initial_locals]
    by simp
  from a c show ?thesis by simp
qed

end
